theory Spec2Isabelle
  imports Complex_Main "HOL-Library.Product_Lexorder"
begin

section \<open>Ontology graph: ancestor paths and common ancestors\<close>

text \<open>
  The ontology graph is the dictionary read from \<^verbatim>\<open>onto_trimmed_graph.json\<close>: a term id is
  mapped to the list of its neighbour term ids. It is kept as an association list (one
  entry per key) and read with \<^const>\<open>map_of\<close>; \<^verbatim>\<open>start not in graph\<close> is
  \<open>map_of graph start = None\<close>. The set \<open>nodes_of\<close> of all term ids in the graph bounds the
  recursion of the path search.
\<close>

type_synonym term_id = string
type_synonym onto_graph = "(term_id \<times> term_id list) list"

definition nodes_of :: "onto_graph \<Rightarrow> term_id set" where
  "nodes_of graph = fst ` set graph \<union> (\<Union>(k, vs) \<in> set graph. set vs)"

text \<open>
  \<^verbatim>\<open>
  def find_all_paths(graph, start, end, path=[]):
      path = path + [start]
      if start == end:
          return [path]
      if start not in graph:
          return []
      paths = []
      for node in graph[start]:
          if node not in path:
              new_paths = find_all_paths(graph, node, end, path)
              for p in new_paths:
                  paths.append(p)
      return paths
  \<close>
  The loop over the neighbours concatenates the results of the recursive calls; a neighbour
  that is already on the current path contributes nothing.
\<close>

function find_all_paths ::
  "onto_graph \<Rightarrow> term_id \<Rightarrow> term_id \<Rightarrow> term_id list \<Rightarrow> term_id list list" where
  "find_all_paths graph start end' path =
     (if start = end' then [path @ [start]]
      else case map_of graph start of
        None \<Rightarrow> []
      | Some nbrs \<Rightarrow>
          concat (map (\<lambda>node. if node \<notin> set (path @ [start])
                               then find_all_paths graph node end' (path @ [start])
                               else []) nbrs))"
  by pat_completeness auto
termination
proof (relation "measure (\<lambda>(graph, start, end', path). card (nodes_of graph - set path - {start}))",
       goal_cases)
  case 1
  show ?case by simp
next
  case (2 graph start end' path nbrs node)
  then have "node \<in> nodes_of graph"
    by (force simp: nodes_of_def dest: map_of_SomeD)
  with 2 have mem: "node \<in> nodes_of graph - set path - {start}"
    by auto
  have fin: "finite (nodes_of graph - set path - {start})"
    by (auto simp: nodes_of_def)
  have "card (nodes_of graph - set path - {start} - {node})
        < card (nodes_of graph - set path - {start})"
    by (rule card_Diff1_less [OF fin mem])
  moreover have "nodes_of graph - set (path @ [start]) - {node}
                 = nodes_of graph - set path - {start} - {node}"
    by auto
  ultimately show ?case by simp
qed

declare find_all_paths.simps [simp del]

text \<open>
  \<^verbatim>\<open>
  def get_ancestors(node, roots, graph):
      paths = [find_all_paths(graph, node, root, []) for root in roots]
      paths_filt = [path for path in paths if len(path) > 0]
      paths_filt = list(itertools.chain.from_iterable(paths_filt))
      ancestors = {x for l in paths_filt for x in l}
      return ancestors if len(ancestors) > 0 else {node}
  \<close>
\<close>

definition get_ancestors :: "term_id \<Rightarrow> term_id list \<Rightarrow> onto_graph \<Rightarrow> term_id set" where
  "get_ancestors node roots graph =
     (let paths = map (\<lambda>root. find_all_paths graph node root []) roots;
          paths_filt = filter (\<lambda>path. length path > 0) paths;
          paths_filt = concat paths_filt;
          ancestors = set (concat paths_filt)
      in if card ancestors > 0 then ancestors else {node})"

text \<open>
  \<^verbatim>\<open>
  def get_comm_ancestors(leaves, roots, graph):
      ancestors = [get_ancestors(node, roots, graph) for node in leaves]
      common_ancestors = set.intersection(*ancestors)
      return common_ancestors
  \<close>
  \<^verbatim>\<open>set.intersection()\<close> without an argument raises \<^verbatim>\<open>TypeError\<close>.
\<close>

datatype error = IndexError | KeyError | ValueError | TypeError

definition get_comm_ancestors ::
  "term_id list \<Rightarrow> term_id list \<Rightarrow> onto_graph \<Rightarrow> error + term_id set" where
  "get_comm_ancestors leaves roots graph =
     (let ancestors = map (\<lambda>node. get_ancestors node roots graph) leaves
      in case ancestors of
           [] \<Rightarrow> Inl TypeError
         | s # ss \<Rightarrow> Inr (fold (\<lambda>t acc. acc \<inter> t) ss s))"


section \<open>Arrays, data frames and the graph library\<close>

text \<open>
  A list comprehension whose body may raise stops at the first element that raises.
\<close>

fun mapM :: "('a \<Rightarrow> error + 'b) \<Rightarrow> 'a list \<Rightarrow> error + 'b list" where
  "mapM f [] = Inr []"
| "mapM f (x # xs) =
     (case f x of
        Inl e \<Rightarrow> Inl e
      | Inr y \<Rightarrow> (case mapM f xs of Inl e \<Rightarrow> Inl e | Inr ys \<Rightarrow> Inr (y # ys)))"

text \<open>
  A two-dimensional float array: its shape and its entries. Entries are real numbers; the
  code only compares them with \<open>0.5\<close>, overwrites them with \<open>0\<close> and copies them, and NaN
  entries are outside the model.
\<close>

record ndarray =
  shape0 :: nat
  shape1 :: nat
  item :: "nat \<Rightarrow> nat \<Rightarrow> real"

text \<open>An index into an axis of length \<open>n\<close>: negative indices count from the end.\<close>

definition np_index :: "nat \<Rightarrow> int \<Rightarrow> error + nat" where
  "np_index n i =
     (if 0 \<le> i \<and> i < int n then Inr (nat i)
      else if - int n \<le> i \<and> i < 0 then Inr (nat (int n + i))
      else Inl IndexError)"

text \<open>
  Arrays are objects in a store; a variable holds an address. The store is a list and an
  address is a position in it, so that a new array gets the next free address.
\<close>

type_synonym addr = nat
type_synonym heap = "ndarray list"

definition alloc :: "heap \<Rightarrow> ndarray \<Rightarrow> addr \<times> heap" where
  "alloc h m = (length h, h @ [m])"

text \<open>
  \<^verbatim>\<open>a[idx, :]\<close> and \<^verbatim>\<open>a[:, idx]\<close> with an integer array \<open>idx\<close>: advanced indexing, which
  checks every index against the axis and returns a new array (a copy, never a view).
\<close>

definition index_rows :: "heap \<Rightarrow> addr \<Rightarrow> int list \<Rightarrow> (error + addr) \<times> heap" where
  "index_rows h a idx =
     (case mapM (np_index (shape0 (h ! a))) idx of
        Inl e \<Rightarrow> (Inl e, h)
      | Inr ks \<Rightarrow>
          (let (a', h') = alloc h \<lparr>shape0 = length ks, shape1 = shape1 (h ! a),
                                   item = (\<lambda>i j. item (h ! a) (ks ! i) j)\<rparr>
           in (Inr a', h')))"

definition index_cols :: "heap \<Rightarrow> addr \<Rightarrow> int list \<Rightarrow> (error + addr) \<times> heap" where
  "index_cols h a idx =
     (case mapM (np_index (shape1 (h ! a))) idx of
        Inl e \<Rightarrow> (Inl e, h)
      | Inr ks \<Rightarrow>
          (let (a', h') = alloc h \<lparr>shape0 = shape0 (h ! a), shape1 = length ks,
                                   item = (\<lambda>i j. item (h ! a) i (ks ! j))\<rparr>
           in (Inr a', h')))"

text \<open>\<^verbatim>\<open>a[a < t] = v\<close>: assignment through a boolean mask, in place.\<close>

definition assign_below :: "heap \<Rightarrow> addr \<Rightarrow> real \<Rightarrow> real \<Rightarrow> heap" where
  "assign_below h a t v =
     h[a := (h ! a)\<lparr>item := (\<lambda>i j. if item (h ! a) i j < t then v else item (h ! a) i j)\<rparr>]"

text \<open>
  An undirected weighted graph as \<^verbatim>\<open>igraph\<close> holds it: the number of vertices and the edge
  list \<open>(source, target, weight)\<close>, which is what \<^verbatim>\<open>get_edge_dataframe\<close> returns.
\<close>

record wgraph =
  vcount :: nat
  get_edge_dataframe :: "(nat \<times> nat \<times> real) list"

text \<open>
  Modelled from the spec: \<^verbatim>\<open>Graph.Weighted_Adjacency(m, mode='undirected', loops=False)\<close> is a
  function of the \<^verbatim>\<open>igraph\<close> library, which the repository only calls. The design says that
  the graph has an edge for every non-zero off-diagonal entry, weighted by the entry, and no
  self-loops; the library documents the undirected mode as taking, for the pair \<open>i < j\<close>, the
  larger of the entries \<open>(i, j)\<close> and \<open>(j, i)\<close>, and it rejects a matrix that is not square.
\<close>

definition Weighted_Adjacency :: "ndarray \<Rightarrow> error + wgraph" where
  "Weighted_Adjacency m =
     (if shape0 m \<noteq> shape1 m then Inl ValueError
      else Inr \<lparr>vcount = shape0 m,
                get_edge_dataframe = concat (map (\<lambda>i. concat (map (\<lambda>j.
                       (let w = max (item m i j) (item m j i)
                        in if w \<noteq> 0 then [(i, j, w)] else []))
                     [Suc i ..< shape0 m])) [0 ..< shape0 m])\<rparr>)"

text \<open>
  The layout and the community detection are algorithms of the graph library, and the
  sorting of a column of integers is \<^verbatim>\<open>argsort\<close> of the array library with its default
  algorithm; the pipeline takes them as given. \<open>layout\<close> is \<^verbatim>\<open>graph.layout().coords\<close>, one
  point per vertex; \<open>community_multilevel\<close> is \<^verbatim>\<open>graph.community_multilevel().membership\<close>,
  one community id per vertex; \<open>np_argsort\<close> is \<^verbatim>\<open>ndarray.argsort(kind='quicksort')\<close>, the
  positions of the array in an order that sorts it. The default algorithm is not stable:
  the order in which it lists positions of equal values is not fixed by the library.
\<close>

record library =
  layout :: "wgraph \<Rightarrow> (real \<times> real) list"
  community_multilevel :: "wgraph \<Rightarrow> nat list"
  np_argsort :: "int list \<Rightarrow> nat list"

text \<open>The rows of the ranked term table of one group, and of the term annotation.\<close>

record term_row =
  id' :: term_id
  term' :: string
  genes :: int
  ind :: int

record annot_row =
  GO_ID :: term_id
  GO_term :: string
  depth :: int
  genes :: int

text \<open>
  The globals of the module that the pipeline reads: the annotation table, the ontology
  graph and the palette \<^verbatim>\<open>px.colors.qualitative.Dark24\<close> (a list of 24 colours, taken as a
  parameter). The global \<^verbatim>\<open>roots = annot[annot.depth == 0].GO_ID.tolist()\<close> is
  \<open>annot_roots\<close> of the annotation table.
\<close>

type_synonym color = string

record globals =
  annot :: "annot_row list"
  onto_graph :: onto_graph
  Dark24 :: "color list"

definition annot_roots :: "annot_row list \<Rightarrow> term_id list" where
  "annot_roots an = map GO_ID (filter (\<lambda>r. depth r = 0) an)"

text \<open>
  \<^verbatim>\<open>.iloc[0]\<close> raises \<^verbatim>\<open>IndexError\<close> on an empty frame. \<^verbatim>\<open>sort_values(col, ascending=False)\<close>
  on one column orders the rows by decreasing key as \<^verbatim>\<open>nargsort\<close> of the library does:
  \<^verbatim>\<open>
  idx = np.arange(len(items))
  non_nans = items[::-1]
  non_nan_idx = idx[::-1]
  indexer = non_nan_idx[non_nans.argsort(kind=kind)]
  indexer = indexer[::-1]
  \<close>
  and the rows are taken at the positions of \<open>indexer\<close>; a position out of range raises
  \<^verbatim>\<open>IndexError\<close>. Which of several rows with equal keys comes first depends on \<open>argsort\<close>.
  Sorting on several columns (\<open>lexsort_desc\<close>) is lexicographic; it is modelled as a stable
  sort, and nothing proved below depends on the order it gives to rows with equal keys.
  \<^verbatim>\<open>Series.unique()\<close> lists the distinct values in the order of their first appearance;
  \<^verbatim>\<open>np.unique\<close> lists them in increasing order. Assigning a column of the wrong length
  raises \<^verbatim>\<open>ValueError\<close>.
\<close>

definition iloc0 :: "'a list \<Rightarrow> error + 'a" where
  "iloc0 rows = (case rows of [] \<Rightarrow> Inl IndexError | r # _ \<Rightarrow> Inr r)"

definition iloc :: "'a list \<Rightarrow> nat \<Rightarrow> error + 'a" where
  "iloc rows i = (if i < length rows then Inr (rows ! i) else Inl IndexError)"

definition sort_values_desc ::
  "(int list \<Rightarrow> nat list) \<Rightarrow> ('a \<Rightarrow> int) \<Rightarrow> 'a list \<Rightarrow> error + 'a list" where
  "sort_values_desc argsort key rows =
     (let items = map key rows;
          idx = [0 ..< length items];
          non_nans = rev items;
          non_nan_idx = rev idx
      in case mapM (iloc non_nan_idx) (argsort non_nans) of
           Inl e \<Rightarrow> Inl e
         | Inr indexer \<Rightarrow> mapM (iloc rows) (rev indexer))"

definition lexsort_desc :: "('a \<Rightarrow> 'k::linorder) \<Rightarrow> 'a list \<Rightarrow> 'a list" where
  "lexsort_desc key rows = rev (sort_key key (rev rows))"

fun unique :: "'a list \<Rightarrow> 'a list" where
  "unique [] = []"
| "unique (x # xs) = x # unique (filter (\<lambda>y. y \<noteq> x) xs)"

definition np_unique :: "nat list \<Rightarrow> nat list" where
  "np_unique xs = sort (remdups xs)"

definition set_column :: "nat \<Rightarrow> 'a list \<Rightarrow> error + 'a list" where
  "set_column n vals = (if length vals = n then Inr vals else Inl ValueError)"


section \<open>The pipeline \<^verbatim>\<open>get_cytoscape_components\<close>\<close>

text \<open>
  \<^verbatim>\<open>
  group_sims = wsem_sim[group.ind.to_numpy(),:]
  group_sims = group_sims[:,group.ind.to_numpy()]
  group_sims[group_sims < 0.5] = 0
  graph = Graph.Weighted_Adjacency(group_sims, mode='undirected', loops=False)
  \<close>
  \<open>wsem_sim\<close> is the address of the global similarity matrix.
\<close>

definition build_graph :: "heap \<Rightarrow> addr \<Rightarrow> int list \<Rightarrow> (error + wgraph) \<times> heap" where
  "build_graph h wsem_sim idx =
     (case index_rows h wsem_sim idx of
        (Inl e, h1) \<Rightarrow> (Inl e, h1)
      | (Inr group_sims, h1) \<Rightarrow>
          (case index_cols h1 group_sims idx of
             (Inl e, h2) \<Rightarrow> (Inl e, h2)
           | (Inr group_sims, h2) \<Rightarrow>
               (let h3 = assign_below h2 group_sims 0.5 0
                in (Weighted_Adjacency (h3 ! group_sims), h3))))"

text \<open>
  \<^verbatim>\<open>group['x'], group['y'] = np.array(layout.coords).T\<close>: the transposed array of \<open>N\<close> points has
  two rows when \<open>N > 0\<close>; for no point at all the array is empty and unpacking it into two
  targets raises \<^verbatim>\<open>ValueError\<close>.
\<close>

definition unpack_xy :: "(real \<times> real) list \<Rightarrow> error + real list \<times> real list" where
  "unpack_xy coords =
     (if coords = [] then Inl ValueError else Inr (map fst coords, map snd coords))"

text \<open>
  \<^verbatim>\<open>
  es = [(group.id.iloc[edge_df.source[i]], group.id.iloc[edge_df.target[i]], edge_df.weight[i])
        for i in range(edge_df.shape[0])]
  \<close>
\<close>

definition edge_ids ::
  "term_row list \<Rightarrow> (nat \<times> nat \<times> real) list \<Rightarrow> error + (term_id \<times> term_id \<times> real) list" where
  "edge_ids group' edge_df =
     mapM (\<lambda>(s, t, w).
        case iloc (map id' group') s of
          Inl e \<Rightarrow> Inl e
        | Inr a \<Rightarrow> (case iloc (map id' group') t of Inl e \<Rightarrow> Inl e | Inr b \<Rightarrow> Inr (a, b, w)))
       edge_df"

text \<open>
  \<^verbatim>\<open>
  n_comm = len(np.unique(np.array(community.membership)))
  if n_comm <= 24:
      colors = px.colors.qualitative.Dark24[:n_comm]
  else:
      colors = px.colors.qualitative.Dark24 + px.colors.qualitative.Dark24[:n_comm-24]
  color_map = dict(zip(list(set(community.membership)), colors))
  group['color'] = [color_map[community.membership[i]] for i in range(group.shape[0])]
  \<close>
  The library numbers the communities \<open>0, 1, 2, \<dots>\<close>, and a set of such small integers is
  listed in increasing order, so \<^verbatim>\<open>list(set(membership))\<close> is the sorted list of the ids.
\<close>

definition colors :: "color list \<Rightarrow> nat list \<Rightarrow> color list" where
  "colors pal membership =
     (let n_comm = length (np_unique membership)
      in if n_comm \<le> 24 then take n_comm pal else pal @ take (n_comm - 24) pal)"

definition color_map :: "color list \<Rightarrow> nat list \<Rightarrow> (nat \<times> color) list" where
  "color_map pal membership = zip (np_unique membership) (colors pal membership)"

definition getitem :: "('k \<times> 'v) list \<Rightarrow> 'k \<Rightarrow> error + 'v" where
  "getitem d k = (case map_of d k of None \<Rightarrow> Inl KeyError | Some v \<Rightarrow> Inr v)"

definition group_color :: "color list \<Rightarrow> nat list \<Rightarrow> error + color list" where
  "group_color pal membership = mapM (getitem (color_map pal membership)) membership"

text \<open>
  \<^verbatim>\<open>
  comm_members = {i: group[group.community == i].id.tolist() for i in group.community.unique()}
  comm_members = {k:v for k,v in comm_members.items() if len(v) > 1}
  \<close>
  The dictionary keeps its keys in insertion order; it is the list of its items.
\<close>

definition comm_members :: "term_row list \<Rightarrow> nat list \<Rightarrow> (nat \<times> term_id list) list" where
  "comm_members group' community =
     (let members =
            map (\<lambda>i. (i, map (id' \<circ> fst) (filter (\<lambda>(r, c). c = i) (zip group' community))))
                (unique community)
      in filter (\<lambda>(k, v). length v > 1) members)"

text \<open>
  \<^verbatim>\<open>
  representatives = []
  for vals in comm_members.values():
      representatives.append(
          group[group.id.isin(vals)].sort_values('genes', ascending=False).iloc[0,:].id)
  \<close>
\<close>

definition representative :: "library \<Rightarrow> term_row list \<Rightarrow> term_id list \<Rightarrow> error + term_id" where
  "representative lib group' vals =
     (case sort_values_desc (np_argsort lib) term_row.genes
             (filter (\<lambda>r. id' r \<in> set vals) group') of
        Inl e \<Rightarrow> Inl e
      | Inr sorted_rows \<Rightarrow>
          (case iloc0 sorted_rows of
             Inl e \<Rightarrow> Inl e
           | Inr r \<Rightarrow> Inr (id' r)))"

definition representatives ::
  "library \<Rightarrow> term_row list \<Rightarrow> (nat \<times> term_id list) list \<Rightarrow> error + term_id list" where
  "representatives lib group' cm = mapM (\<lambda>(k, vals). representative lib group' vals) cm"

text \<open>
  \<^verbatim>\<open>
  comm_ancestors = {k: get_comm_ancestors(leaves, roots, onto_graph)
                    for k,leaves in comm_members.items()}
  \<close>
\<close>

definition comm_ancestors ::
  "globals \<Rightarrow> (nat \<times> term_id list) list \<Rightarrow> error + (nat \<times> term_id set) list" where
  "comm_ancestors G cm =
     mapM (\<lambda>(k, leaves).
        case get_comm_ancestors leaves (annot_roots (annot G)) (onto_graph G) of
          Inl e \<Rightarrow> Inl e
        | Inr v \<Rightarrow> Inr (k, v)) cm"

text \<open>
  \<^verbatim>\<open>
  for k, v in comm_ancestors.items():
      if len(v) == 1:
          rep_labels.append(annot[annot.GO_ID.isin(v)].GO_term.iloc[0])
      elif len(v) == 0:
          rep_labels.append(annot[annot.GO_ID.isin(comm_members[k])]
                            .sort_values('genes', ascending=False).iloc[0,:].GO_term)
      else:
          rep_labels.append(annot[annot.GO_ID.isin(v)]
                            .sort_values(['depth', 'genes'], ascending=[False, False])
                            .iloc[0,:].GO_term)
  \<close>
  The body of the loop is \<open>community_label\<close>; sorting on two columns is lexicographic.
\<close>

definition GO_term_of :: "error + annot_row \<Rightarrow> error + string" where
  "GO_term_of r = (case r of Inl e \<Rightarrow> Inl e | Inr row \<Rightarrow> Inr (GO_term row))"

definition community_label ::
  "library \<Rightarrow> annot_row list \<Rightarrow> term_id list \<Rightarrow> term_id set \<Rightarrow> error + string" where
  "community_label lib an members v =
     (if card v = 1 then
        GO_term_of (iloc0 (filter (\<lambda>r. GO_ID r \<in> v) an))
      else if card v = 0 then
        (case sort_values_desc (np_argsort lib) annot_row.genes
                (filter (\<lambda>r. GO_ID r \<in> set members) an) of
           Inl e \<Rightarrow> Inl e
         | Inr sorted_rows \<Rightarrow> GO_term_of (iloc0 sorted_rows))
      else
        GO_term_of (iloc0 (lexsort_desc (\<lambda>r. (depth r, annot_row.genes r))
                             (filter (\<lambda>r. GO_ID r \<in> v) an))))"

definition rep_labels ::
  "library \<Rightarrow> globals \<Rightarrow> (nat \<times> term_id list) list \<Rightarrow> (nat \<times> term_id set) list \<Rightarrow>
   error + string list" where
  "rep_labels lib G cm cas =
     mapM (\<lambda>(k, v).
        case getitem cm k of
          Inl e \<Rightarrow> Inl e
        | Inr members \<Rightarrow> community_label lib (annot G) members v) cas"

text \<open>
  \<^verbatim>\<open>dict(zip(keys, values))\<close>: a later pair overrides an earlier one with the same key, so
  the dictionary is read from the reversed list of pairs. \<^verbatim>\<open>Series.map(d)\<close> gives NaN
  (\<open>None\<close>) for a value that is not a key of \<open>d\<close>.
\<close>

definition dict_zip :: "'k list \<Rightarrow> 'v list \<Rightarrow> 'k \<rightharpoonup> 'v" where
  "dict_zip ks vs = map_of (rev (zip ks vs))"

text \<open>The elements handed to the renderer.\<close>

record node =
  node_id :: term_id
  node_label :: string
  node_genes :: real
  node_representative :: bool
  node_rep_label :: "string option"
  node_rep_label_hover :: string
  node_x :: real
  node_y :: real
  node_classes :: nat

record edge =
  edge_source :: term_id
  edge_target :: term_id
  edge_weight :: real
  edge_classes :: nat

record payload =
  nodes :: "node list"
  edges :: "edge list"
  stylesheet :: "(nat \<times> color) list"

text \<open>
  \<^verbatim>\<open>
  nodes = [{'data': {'id': group.id.iloc[i], 'label': group.term.iloc[i],
                     'genes': np.log(group.genes.iloc[i] + 2)*10,
                     'representative': group.representative.iloc[i],
                     'rep_label': group.rep_label.iloc[i],
                     'rep_label_hover': group.rep_label_hover.iloc[i]},
            'position': {'x': group.x.iloc[i]*50, 'y': group.y.iloc[i]*50},
            'classes': str(group.community.iloc[i]), ...} for i in range(group.shape[0])]
  \<close>
  with \<^verbatim>\<open>group['representative'] = np.where(group['id'].isin(representatives), True, False)\<close>,
  \<^verbatim>\<open>group['rep_label'] = group['id'].map(rep_dict)\<close> and
  \<^verbatim>\<open>group['rep_label_hover'] = group['community'].map(rep_dict2).fillna('None')\<close>.
  The class of an element is kept as the community id itself instead of its decimal string.
  The size of a node is computed with unbounded integers and the real logarithm; the
  overflow of a 64-bit gene count and the logarithm of a number that is not positive are
  outside the model.
\<close>

definition make_node ::
  "term_id list \<Rightarrow> (term_id \<rightharpoonup> string) \<Rightarrow> (nat \<rightharpoonup> string) \<Rightarrow>
   term_row \<times> real \<times> real \<times> nat \<Rightarrow> node" where
  "make_node reps rep_dict rep_dict2 = (\<lambda>(r, x, y, c).
     \<lparr>node_id = id' r,
      node_label = term' r,
      node_genes = ln (real_of_int (term_row.genes r + 2)) * 10,
      node_representative = (id' r \<in> set reps),
      node_rep_label = rep_dict (id' r),
      node_rep_label_hover = (case rep_dict2 c of None \<Rightarrow> ''None'' | Some l \<Rightarrow> l),
      node_x = x * 50,
      node_y = y * 50,
      node_classes = c\<rparr>)"

text \<open>
  \<^verbatim>\<open>
  edges = [{'data': {'source': e[0], 'target': e[1], 'weight': e[2]*5},
            'classes': str(group[group.id == e[0]].community.iloc[0])} for e in es]
  \<close>
\<close>

definition make_edge ::
  "term_row list \<Rightarrow> nat list \<Rightarrow> term_id \<times> term_id \<times> real \<Rightarrow> error + edge" where
  "make_edge group' community = (\<lambda>(s, t, w).
     case iloc0 (map snd (filter (\<lambda>(r, c). id' r = s) (zip group' community))) of
       Inl e \<Rightarrow> Inl e
     | Inr c \<Rightarrow> Inr \<lparr>edge_source = s, edge_target = t, edge_weight = w * 5, edge_classes = c\<rparr>)"

text \<open>
  The part of the function after the graph is built (from line 155 on). Each step that can
  raise is chained with \<open>bind_err\<close>: the first error ends the run.
\<close>

definition bind_err :: "error + 'a \<Rightarrow> ('a \<Rightarrow> error + 'b) \<Rightarrow> error + 'b" where
  "bind_err m f = (case m of Inl e \<Rightarrow> Inl e | Inr x \<Rightarrow> f x)"

definition components :: "library \<Rightarrow> globals \<Rightarrow> term_row list \<Rightarrow> wgraph \<Rightarrow> error + payload" where
  "components lib G group' graph =
     bind_err (unpack_xy (layout lib graph)) (\<lambda>(xs, ys).
     bind_err (set_column (length group') xs) (\<lambda>xs.
     bind_err (set_column (length group') ys) (\<lambda>ys.
     bind_err (edge_ids group' (get_edge_dataframe graph)) (\<lambda>es.
     bind_err (set_column (length group') (community_multilevel lib graph)) (\<lambda>community.
     bind_err (group_color (Dark24 G) community) (\<lambda>color.
     bind_err (representatives lib group' (comm_members group' community)) (\<lambda>reps.
     bind_err (comm_ancestors G (comm_members group' community)) (\<lambda>cas.
     bind_err (rep_labels lib G (comm_members group' community) cas) (\<lambda>labels.
     bind_err (mapM (make_edge group' community) es) (\<lambda>edges'.
       Inr \<lparr>nodes = map (make_node reps (dict_zip reps labels) (dict_zip (map fst cas) labels))
                        (zip group' (zip xs (zip ys community))),
            edges = edges',
            stylesheet = color_map (Dark24 G) community\<rparr>))))))))))"

definition get_cytoscape_components ::
  "library \<Rightarrow> globals \<Rightarrow> term_row list \<Rightarrow> addr \<Rightarrow> heap \<Rightarrow> (error + payload) \<times> heap" where
  "get_cytoscape_components lib G group' wsem_sim h =
     (case build_graph h wsem_sim (map ind group') of
        (Inl e, h') \<Rightarrow> (Inl e, h')
      | (Inr graph, h') \<Rightarrow> (components lib G group' graph, h'))"


section \<open>Vocabulary of the claims and example data\<close>

text \<open>
  Paths of the ontology graph, as the claims speak of them: \<open>v\<close> is a neighbour of \<open>u\<close>, a
  non-empty list of nodes is a walk when each node is followed by one of its neighbours, and
  \<open>e\<close> is reachable from \<open>s\<close> when some walk leads from \<open>s\<close> to \<open>e\<close>.
\<close>

definition is_edge :: "onto_graph \<Rightarrow> term_id \<Rightarrow> term_id \<Rightarrow> bool" where
  "is_edge graph u v = (case map_of graph u of None \<Rightarrow> False | Some nbrs \<Rightarrow> v \<in> set nbrs)"

fun is_walk :: "onto_graph \<Rightarrow> term_id list \<Rightarrow> bool" where
  "is_walk graph [] = False"
| "is_walk graph [u] = True"
| "is_walk graph (u # v # w) = (is_edge graph u v \<and> is_walk graph (v # w))"

definition has_path :: "onto_graph \<Rightarrow> term_id \<Rightarrow> term_id \<Rightarrow> bool" where
  "has_path graph s e = (\<exists>w. is_walk graph w \<and> hd w = s \<and> last w = e)"

text \<open>
  What \<^verbatim>\<open>argsort\<close> promises, whatever its algorithm: the result lists every position of the
  array once, in an order in which the values do not decrease.
\<close>

definition argsort_ok :: "(int list \<Rightarrow> nat list) \<Rightarrow> bool" where
  "argsort_ok argsort =
     (\<forall>xs. length (argsort xs) = length xs \<and> set (argsort xs) = {0 ..< length xs} \<and>
           sorted (map (\<lambda>i. xs ! i) (argsort xs)))"

text \<open>
  A small ontology: \<open>A\<close> and \<open>B\<close> are children of \<open>P\<close>, \<open>P\<close> and \<open>C\<close> are children of the
  root \<open>R\<close>; \<open>X\<close> does not occur. A second graph has the cycle \<open>A \<rightarrow> B \<rightarrow> A\<close>.
\<close>

definition ex_onto :: onto_graph where
  "ex_onto = [(''A'', [''P'']), (''B'', [''P'']), (''P'', [''R'']), (''C'', [''R''])]"

definition cyc_onto :: onto_graph where
  "cyc_onto = [(''A'', [''B'']), (''B'', [''A'', ''R''])]"

definition ex_annot :: "annot_row list" where
  "ex_annot =
     [\<lparr>GO_ID = ''R'', GO_term = ''root'', depth = 0, genes = 100\<rparr>,
      \<lparr>GO_ID = ''P'', GO_term = ''parent'', depth = 1, genes = 40\<rparr>,
      \<lparr>GO_ID = ''A'', GO_term = ''alpha'', depth = 2, genes = 10\<rparr>,
      \<lparr>GO_ID = ''B'', GO_term = ''beta'', depth = 2, genes = 10\<rparr>,
      \<lparr>GO_ID = ''C'', GO_term = ''gamma'', depth = 1, genes = 7\<rparr>]"

text \<open>
  A group of three terms with the similarities \<open>A-B = 0.8\<close>, \<open>A-C = 0.3\<close>, \<open>B-C = 0.6\<close>;
  \<open>A\<close> and \<open>B\<close> have the same gene count.
\<close>

definition ex_group :: "term_row list" where
  "ex_group =
     [\<lparr>id' = ''A'', term' = ''alpha'', genes = 10, ind = 0\<rparr>,
      \<lparr>id' = ''B'', term' = ''beta'', genes = 10, ind = 1\<rparr>,
      \<lparr>id' = ''C'', term' = ''gamma'', genes = 7, ind = 2\<rparr>]"

definition sims3 :: ndarray where
  "sims3 = \<lparr>shape0 = 3, shape1 = 3,
             item = (\<lambda>i j. [[1, 0.8, 0.3], [0.8, 1, 0.6], [0.3, 0.6, 1]] ! i ! j)\<rparr>"

definition ex_graph :: wgraph where
  "ex_graph = \<lparr>vcount = 3, get_edge_dataframe = [(0, 1, 0.8), (1, 2, 0.6)]\<rparr>"

definition ex_palette :: "color list" where
  "ex_palette =
     [''#2E91E5'', ''#E15F99'', ''#1CA71C'', ''#FB0D0D'', ''#DA16FF'', ''#222A2A'',
      ''#B68100'', ''#750D86'', ''#EB663B'', ''#511CFB'', ''#00A08B'', ''#FB00D1'',
      ''#FC0080'', ''#B2828D'', ''#6C7C32'', ''#778AAE'', ''#862A16'', ''#A777F1'',
      ''#620042'', ''#1616A7'', ''#DA60CA'', ''#6C4516'', ''#0D2A63'', ''#AF0038'']"

definition ex_globals :: globals where
  "ex_globals = \<lparr>annot = ex_annot, onto_graph = ex_onto, Dark24 = ex_palette\<rparr>"

text \<open>
  Two sorting algorithms that keep the promise of \<^verbatim>\<open>argsort\<close>: the first lists positions of
  equal values in increasing order (a stable sort), the second in decreasing order.
\<close>

definition stable_argsort :: "int list \<Rightarrow> nat list" where
  "stable_argsort xs = sort_key (\<lambda>i. xs ! i) [0 ..< length xs]"

definition ties_reversed_argsort :: "int list \<Rightarrow> nat list" where
  "ties_reversed_argsort xs = rev (sort_key (\<lambda>i. - (xs ! i)) [0 ..< length xs])"

text \<open>
  A stand-in for the library: the vertices are laid out on a line, the first two vertices
  form one community, the third one its own, and the sort is the stable one.
\<close>

definition ex_lib :: library where
  "ex_lib = \<lparr>layout = (\<lambda>g. map (\<lambda>i. (real i, 0)) [0 ..< vcount g]),
             community_multilevel = (\<lambda>g. [0, 0, 1]),
             np_argsort = stable_argsort\<rparr>"

text \<open>
  A group of four terms in one community, with the gene counts \<open>1, 1, 2, 2\<close>, and a library
  whose sort lists positions of equal values in decreasing order.
\<close>

definition tie_group :: "term_row list" where
  "tie_group =
     [\<lparr>id' = ''T0'', term' = ''t0'', genes = 1, ind = 0\<rparr>,
      \<lparr>id' = ''T1'', term' = ''t1'', genes = 1, ind = 1\<rparr>,
      \<lparr>id' = ''T2'', term' = ''t2'', genes = 2, ind = 2\<rparr>,
      \<lparr>id' = ''T3'', term' = ''t3'', genes = 2, ind = 3\<rparr>]"


definition tie_lib :: library where
  "tie_lib = \<lparr>layout = (\<lambda>g. map (\<lambda>i. (real i, 0)) [0 ..< vcount g]),
              community_multilevel = (\<lambda>g. [0, 0, 0, 0]),
              np_argsort = ties_reversed_argsort\<rparr>"

definition ex_payload :: payload where
  "ex_payload =
     \<lparr>nodes =
        [\<lparr>node_id = ''A'', node_label = ''alpha'', node_genes = ln 12 * 10,
          node_representative = True, node_rep_label = Some ''parent'',
          node_rep_label_hover = ''parent'', node_x = 0, node_y = 0, node_classes = 0\<rparr>,
         \<lparr>node_id = ''B'', node_label = ''beta'', node_genes = ln 12 * 10,
          node_representative = False, node_rep_label = None,
          node_rep_label_hover = ''parent'', node_x = 50, node_y = 0, node_classes = 0\<rparr>,
         \<lparr>node_id = ''C'', node_label = ''gamma'', node_genes = ln 9 * 10,
          node_representative = False, node_rep_label = None,
          node_rep_label_hover = ''None'', node_x = 100, node_y = 0, node_classes = 1\<rparr>],
      edges =
        [\<lparr>edge_source = ''A'', edge_target = ''B'', edge_weight = 4, edge_classes = 0\<rparr>,
         \<lparr>edge_source = ''B'', edge_target = ''C'', edge_weight = 3, edge_classes = 0\<rparr>],
      stylesheet = [(0, ''#2E91E5''), (1, ''#E15F99'')]\<rparr>"


section \<open>Properties of the path search\<close>

lemma find_all_paths_end: "find_all_paths graph end' end' path = [path @ [end']]"
  by (simp add: find_all_paths.simps)

lemma find_all_paths_step:
  assumes "start \<noteq> end'" and "p \<in> set (find_all_paths graph start end' path)"
  shows "\<exists>nbrs node. map_of graph start = Some nbrs \<and> node \<in> set nbrs \<and>
           node \<notin> set (path @ [start]) \<and>
           p \<in> set (find_all_paths graph node end' (path @ [start]))"
proof -
  have eq: "find_all_paths graph start end' path =
      (case map_of graph start of
         None \<Rightarrow> []
       | Some nbrs \<Rightarrow>
           concat (map (\<lambda>node. if node \<notin> set (path @ [start])
                                then find_all_paths graph node end' (path @ [start])
                                else []) nbrs))"
    using assms(1) by (subst find_all_paths.simps) simp
  show ?thesis
  proof (cases "map_of graph start")
    case None
    with assms(2) eq show ?thesis by simp
  next
    case (Some nbrs)
    with assms(2) eq obtain node where "node \<in> set nbrs"
      "p \<in> set (if node \<notin> set (path @ [start])
                 then find_all_paths graph node end' (path @ [start]) else [])"
      by auto
    with Some show ?thesis by (cases "node \<in> set (path @ [start])") auto
  qed
qed

lemma find_all_paths_prefix:
  "p \<in> set (find_all_paths graph start end' path) \<Longrightarrow> \<exists>q. p = path @ start # q"
proof (induction graph start end' path arbitrary: p rule: find_all_paths.induct)
  case (1 graph start end' path)
  show ?case
  proof (cases "start = end'")
    case True
    with "1.prems" show ?thesis by (simp add: find_all_paths_end)
  next
    case False
    from find_all_paths_step[OF False "1.prems"] obtain nbrs node where
      nb: "map_of graph start = Some nbrs" "node \<in> set nbrs" "node \<notin> set (path @ [start])"
      and p: "p \<in> set (find_all_paths graph node end' (path @ [start]))"
      by blast
    from "1.IH"[OF False nb p] show ?thesis by auto
  qed
qed

lemma find_all_paths_distinct:
  "p \<in> set (find_all_paths graph start end' path) \<Longrightarrow> distinct path \<Longrightarrow> start \<notin> set path
   \<Longrightarrow> distinct p"
proof (induction graph start end' path arbitrary: p rule: find_all_paths.induct)
  case (1 graph start end' path)
  show ?case
  proof (cases "start = end'")
    case True
    with "1.prems" show ?thesis by (simp add: find_all_paths_end)
  next
    case False
    from find_all_paths_step[OF False "1.prems"(1)] obtain nbrs node where
      nb: "map_of graph start = Some nbrs" "node \<in> set nbrs" "node \<notin> set (path @ [start])"
      and p: "p \<in> set (find_all_paths graph node end' (path @ [start]))"
      by blast
    from "1.prems" have "distinct (path @ [start])" by simp
    from "1.IH"[OF False nb p this nb(3)] show ?thesis .
  qed
qed

lemma find_all_paths_start_mem:
  "p \<in> set (find_all_paths graph node end' []) \<Longrightarrow> node \<in> set p"
  by (drule find_all_paths_prefix) auto

lemma get_ancestors_cases:
  "get_ancestors node roots graph =
     (if \<forall>root \<in> set roots. find_all_paths graph node root [] = [] then {node}
      else (\<Union>root \<in> set roots. \<Union>p \<in> set (find_all_paths graph node root []). set p))"
proof -
  let ?A = "set (concat (concat (filter (\<lambda>path. length path > 0)
              (map (\<lambda>root. find_all_paths graph node root []) roots))))"
  have A: "?A = (\<Union>root \<in> set roots. \<Union>p \<in> set (find_all_paths graph node root []). set p)"
    by auto
  have fin: "finite ?A" by simp
  have ga: "get_ancestors node roots graph = (if card ?A > 0 then ?A else {node})"
    by (simp only: get_ancestors_def Let_def)
  show ?thesis
  proof (cases "\<forall>root \<in> set roots. find_all_paths graph node root [] = []")
    case True
    then have "?A = {}" unfolding A by simp
    with ga True show ?thesis by simp
  next
    case False
    then obtain rt p where rp: "rt \<in> set roots" "p \<in> set (find_all_paths graph node rt [])"
      by (meson last_in_set)
    from rp(2) have "node \<in> set p" by (rule find_all_paths_start_mem)
    with rp have "node \<in> ?A" unfolding A by blast
    then have "?A \<noteq> {}" by (metis empty_iff)
    with fin have "card ?A > 0" by (simp add: card_gt_0_iff)
    with ga False A show ?thesis by simp
  qed
qed

lemma is_walk_suffix: "is_walk graph (xs @ ys) \<Longrightarrow> ys \<noteq> [] \<Longrightarrow> is_walk graph ys"
proof (induction xs)
  case Nil
  then show ?case by simp
next
  case (Cons x xs)
  then show ?case by (cases "xs @ ys") auto
qed

lemma is_walk_Cons: "is_edge graph u (hd w) \<Longrightarrow> is_walk graph w \<Longrightarrow> is_walk graph (u # w)"
  by (cases w) auto

lemma find_all_paths_walk:
  "p \<in> set (find_all_paths graph start end' path) \<Longrightarrow>
   \<exists>q. p = path @ q \<and> is_walk graph q \<and> hd q = start \<and> last q = end'"
proof (induction graph start end' path arbitrary: p rule: find_all_paths.induct)
  case (1 graph start end' path)
  show ?case
  proof (cases "start = end'")
    case True
    with "1.prems" have "p = path @ [start]" by (simp add: find_all_paths_end)
    with True show ?thesis by simp
  next
    case False
    from find_all_paths_step[OF False "1.prems"] obtain nbrs node where
      nb: "map_of graph start = Some nbrs" "node \<in> set nbrs" "node \<notin> set (path @ [start])"
      and p: "p \<in> set (find_all_paths graph node end' (path @ [start]))"
      by blast
    from "1.IH"[OF False nb p] obtain q where
      q: "p = (path @ [start]) @ q" "is_walk graph q" "hd q = node" "last q = end'"
      by blast
    from nb q have "is_edge graph start (hd q)" by (simp add: is_edge_def)
    with q have "is_walk graph (start # q)" by (simp add: is_walk_Cons)
    moreover from q have "q \<noteq> []" by auto
    ultimately show ?thesis using q by auto
  qed
qed

lemma find_all_paths_complete:
  "is_walk graph w \<Longrightarrow> hd w = start \<Longrightarrow> last w = end' \<Longrightarrow> set w \<inter> set path = {}
   \<Longrightarrow> find_all_paths graph start end' path \<noteq> []"
proof (induction graph start end' path arbitrary: w rule: find_all_paths.induct)
  case (1 graph start end' path)
  show ?case
  proof (cases "start = end'")
    case True
    then show ?thesis by (simp add: find_all_paths_end)
  next
    case False
    from "1.prems" have wne: "w \<noteq> []" by auto
    with "1.prems" have "start \<in> set w" by auto
    then obtain pre suf where w: "w = pre @ start # suf" "start \<notin> set suf"
      by (auto dest: split_list_last)
    have "suf \<noteq> []"
    proof
      assume "suf = []"
      with w "1.prems"(3) have "end' = start" by simp
      with False show False by simp
    qed
    then obtain node rest where suf: "suf = node # rest" by (cases suf) auto
    from "1.prems"(1) w have "is_walk graph (start # suf)"
      by (auto intro: is_walk_suffix)
    with suf have e: "is_edge graph start node" and wk: "is_walk graph (node # rest)"
      by auto
    from e obtain nbrs where nb: "map_of graph start = Some nbrs" "node \<in> set nbrs"
      by (auto simp: is_edge_def split: option.splits)
    from w suf "1.prems"(4) have disj: "set (node # rest) \<inter> set (path @ [start]) = {}"
      by auto
    then have nin: "node \<notin> set (path @ [start])" by auto
    from w suf "1.prems"(3) have lst: "last (node # rest) = end'" by simp
    have ne: "find_all_paths graph node end' (path @ [start]) \<noteq> []"
      by (rule "1.IH"[OF False nb nin wk _ lst disj]) simp
    have eq: "find_all_paths graph start end' path =
        concat (map (\<lambda>node. if node \<notin> set (path @ [start])
                                then find_all_paths graph node end' (path @ [start])
                                else []) nbrs)"
      using False nb by (subst find_all_paths.simps) simp
    from ne nb(2) nin show ?thesis unfolding eq by (auto simp: concat_eq_Nil_conv) 
  qed
qed

lemma find_all_paths_nonempty_iff:
  "find_all_paths graph s e [] \<noteq> [] \<longleftrightarrow> has_path graph s e"
proof
  assume "find_all_paths graph s e [] \<noteq> []"
  then obtain p where "p \<in> set (find_all_paths graph s e [])"
    by (meson last_in_set)
  from find_all_paths_walk[OF this] show "has_path graph s e"
    by (auto simp: has_path_def)
next
  assume "has_path graph s e"
  then obtain w where "is_walk graph w" "hd w = s" "last w = e"
    by (auto simp: has_path_def)
  then show "find_all_paths graph s e [] \<noteq> []"
    by (rule find_all_paths_complete) simp
qed

lemma fold_inter: "fold (\<lambda>t acc. acc \<inter> t) ss s = s \<inter> \<Inter>(set ss)"
  by (induction ss arbitrary: s) auto

lemma get_comm_ancestors_Inr:
  "get_comm_ancestors leaves roots graph = Inr v \<longleftrightarrow>
     leaves \<noteq> [] \<and> v = (\<Inter>n \<in> set leaves. get_ancestors n roots graph)"
  by (cases leaves) (auto simp: get_comm_ancestors_def fold_inter)

text \<open>The search on the example ontology.\<close>

lemma ex_find_all_paths:
  "find_all_paths ex_onto ''A'' ''R'' [] = [[''A'', ''P'', ''R'']]"
  "find_all_paths ex_onto ''B'' ''R'' [] = [[''B'', ''P'', ''R'']]"
  by (simp_all add: ex_onto_def find_all_paths.simps)

lemma ex_get_ancestors:
  "get_ancestors ''A'' [''R''] ex_onto = {''A'', ''P'', ''R''}"
  "get_ancestors ''B'' [''R''] ex_onto = {''B'', ''P'', ''R''}"
  by (simp_all add: get_ancestors_def ex_find_all_paths Let_def)

text \<open>
  Claim C2. \<open>get_ancestors\<close> never returns the empty set, and for a node from which no root
  is reachable it returns exactly the set that holds the node alone.
\<close>

theorem get_ancestors_nonempty_fallback:
  "get_ancestors node roots graph \<noteq> {} \<and>
   ((\<forall>rt \<in> set roots. \<not> has_path graph node rt) \<longrightarrow> get_ancestors node roots graph = {node})"
proof -
  have "node \<in> get_ancestors node roots graph"
  proof (cases "\<forall>rt \<in> set roots. find_all_paths graph node rt [] = []")
    case True
    then show ?thesis by (simp add: get_ancestors_cases)
  next
    case False
    then obtain rt p where rp: "rt \<in> set roots" "p \<in> set (find_all_paths graph node rt [])"
      by (meson last_in_set)
    from rp(2) have "node \<in> set p" by (rule find_all_paths_start_mem)
    with rp False show ?thesis unfolding get_ancestors_cases by auto
  qed
  then have "get_ancestors node roots graph \<noteq> {}" by blast
  moreover have "get_ancestors node roots graph = {node}"
    if "\<forall>rt \<in> set roots. \<not> has_path graph node rt"
    using that by (simp add: get_ancestors_cases find_all_paths_nonempty_iff [symmetric])
  ultimately show ?thesis by blast
qed

theorem get_ancestors_nonempty_fallback_witness:
  "\<not> has_path ex_onto ''X'' ''R'' \<and> get_ancestors ''X'' [''R''] ex_onto = {''X''} \<and>
   get_ancestors ''X'' [''R''] ex_onto \<noteq> {}"
proof -
  have "find_all_paths ex_onto ''X'' ''R'' [] = []"
    by (simp add: find_all_paths.simps ex_onto_def)
  then have n: "\<not> has_path ex_onto ''X'' ''R''"
    by (simp add: find_all_paths_nonempty_iff [symmetric])
  then have h: "\<forall>rt \<in> set [''R'']. \<not> has_path ex_onto ''X'' rt"
    by simp
  note c = get_ancestors_nonempty_fallback [of "''X''" "[''R'']" ex_onto]
  show ?thesis
    by (intro conjI n c [THEN conjunct1] c [THEN conjunct2, THEN mp, OF h])
qed

text \<open>
  Claim C10. A node is one of its own ancestors: every path that the search returns from the
  node starts with it, and the fallback set holds it. Hence a member of a set of terms that
  is an ancestor of every other member is one of the common ancestors of the set.
\<close>

theorem node_among_own_ancestors:
  "node \<in> get_ancestors node roots graph \<and>
   (\<forall>rt \<in> set roots. \<forall>p \<in> set (find_all_paths graph node rt []). hd p = node \<and> node \<in> set p) \<and>
   (\<forall>v. get_comm_ancestors leaves roots graph = Inr v \<longrightarrow>
      (\<forall>l \<in> set leaves. (\<forall>n \<in> set leaves - {l}. l \<in> get_ancestors n roots graph) \<longrightarrow> l \<in> v))"
proof -
  have own: "n \<in> get_ancestors n roots graph" for n
  proof (cases "\<forall>rt \<in> set roots. find_all_paths graph n rt [] = []")
    case True
    then show ?thesis by (simp add: get_ancestors_cases)
  next
    case False
    then obtain rt p where rp: "rt \<in> set roots" "p \<in> set (find_all_paths graph n rt [])"
      by (meson last_in_set)
    from rp(2) have "n \<in> set p" by (rule find_all_paths_start_mem)
    with rp False show ?thesis unfolding get_ancestors_cases by auto
  qed
  have paths: "hd p = node \<and> node \<in> set p" if "p \<in> set (find_all_paths graph node rt [])" for rt p
    using find_all_paths_prefix[OF that] by auto
  have comm: "l \<in> v" if "get_comm_ancestors leaves roots graph = Inr v" "l \<in> set leaves"
    "\<forall>n \<in> set leaves - {l}. l \<in> get_ancestors n roots graph" for v l
  proof -
    from that(1) have v: "v = (\<Inter>n \<in> set leaves. get_ancestors n roots graph)"
      by (simp add: get_comm_ancestors_Inr)
    have "l \<in> get_ancestors n roots graph" if "n \<in> set leaves" for n
      using that \<open>\<forall>n \<in> set leaves - {l}. l \<in> get_ancestors n roots graph\<close> own[of l]
      by (cases "n = l") auto
    with v show ?thesis by blast
  qed
  from own paths comm show ?thesis by blast
qed

theorem node_among_own_ancestors_witness:
  "''P'' \<in> get_ancestors ''P'' [''R''] ex_onto \<and>
   find_all_paths ex_onto ''P'' ''R'' [] = [[''P'', ''R'']] \<and>
   get_comm_ancestors [''A'', ''P''] [''R''] ex_onto = Inr {''P'', ''R''} \<and>
   ''P'' \<in> set [''A'', ''P'']"
proof -
  have p: "find_all_paths ex_onto ''P'' ''R'' [] = [[''P'', ''R'']]"
    by (simp add: find_all_paths.simps ex_onto_def)
  have gp: "get_ancestors ''P'' [''R''] ex_onto = {''P'', ''R''}"
    by (simp add: get_ancestors_def p Let_def)
  have c: "get_comm_ancestors [''A'', ''P''] [''R''] ex_onto = Inr {''P'', ''R''}"
    by (auto simp: get_comm_ancestors_def ex_get_ancestors gp)
  have "''P'' \<in> {''P'', ''R''}"
    using node_among_own_ancestors [of "''P''" "[''R'']" ex_onto "[''A'', ''P'']"] c
    by (simp add: ex_get_ancestors)
  with p gp c show ?thesis by simp
qed

text \<open>
  Claim C8 says that a cycle met during the path search is a fatal error. The code does
  otherwise: on the graph with the cycle \<open>A \<rightarrow> B \<rightarrow> A\<close> the search from \<open>A\<close> skips the
  neighbour \<open>A\<close> of \<open>B\<close>, which is on the current path, and returns the path through \<open>B\<close>;
  the common ancestors of \<open>A\<close> and \<open>B\<close> are computed without any error.
\<close>

theorem cycle_skipped_counterexample:
  "is_walk cyc_onto [''A'', ''B'', ''A''] \<and>
   find_all_paths cyc_onto ''A'' ''R'' [] = [[''A'', ''B'', ''R'']] \<and>
   get_comm_ancestors [''A'', ''B''] [''R''] cyc_onto = Inr {''B'', ''R''}"
proof -
  have 1: "is_walk cyc_onto [''A'', ''B'', ''A'']"
    by (simp add: cyc_onto_def is_edge_def)
  have 2: "find_all_paths cyc_onto ''A'' ''R'' [] = [[''A'', ''B'', ''R'']]"
    by (simp add: find_all_paths.simps cyc_onto_def)
  have 3: "find_all_paths cyc_onto ''B'' ''R'' [] = [[''B'', ''R'']]"
    by (simp add: find_all_paths.simps cyc_onto_def)
  have "get_comm_ancestors [''A'', ''B''] [''R''] cyc_onto = Inr {''B'', ''R''}"
    by (auto simp: get_comm_ancestors_def get_ancestors_def 2 3 Let_def)
  with 1 2 show ?thesis by simp
qed

text \<open>
  Claim C8, amended. A neighbour that is already on the current path is skipped and the
  search goes on, with or without cycles in the graph: the search returns at least one path
  exactly when the end node is reachable, and every returned path is a walk from the start
  node to the end node in which no node repeats.
\<close>

theorem find_all_paths_skips_visited:
  "(find_all_paths graph start end' [] \<noteq> [] \<longleftrightarrow> has_path graph start end') \<and>
   (\<forall>p \<in> set (find_all_paths graph start end' []).
      distinct p \<and> is_walk graph p \<and> hd p = start \<and> last p = end')"
proof -
  have "distinct p \<and> is_walk graph p \<and> hd p = start \<and> last p = end'"
    if "p \<in> set (find_all_paths graph start end' [])" for p
    using find_all_paths_distinct[OF that] find_all_paths_walk[OF that] by auto
  then show ?thesis using find_all_paths_nonempty_iff by blast
qed

theorem find_all_paths_skips_visited_witness:
  "find_all_paths cyc_onto ''A'' ''R'' [] = [[''A'', ''B'', ''R'']] \<and>
   has_path cyc_onto ''A'' ''R'' \<and>
   distinct [''A'', ''B'', ''R''] \<and> is_walk cyc_onto [''A'', ''B'', ''R'']"
proof -
  have f: "find_all_paths cyc_onto ''A'' ''R'' [] = [[''A'', ''B'', ''R'']]"
    by (simp add: find_all_paths.simps cyc_onto_def)
  then have ne: "find_all_paths cyc_onto ''A'' ''R'' [] \<noteq> []"
    and m: "[''A'', ''B'', ''R''] \<in> set (find_all_paths cyc_onto ''A'' ''R'' [])"
    by simp_all
  note c = find_all_paths_skips_visited [of cyc_onto "''A''" "''R''"]
  note p = c [THEN conjunct2, THEN bspec, OF m]
  show ?thesis
    by (intro conjI f c [THEN conjunct1, THEN iffD1, OF ne]
        p [THEN conjunct1] p [THEN conjunct2, THEN conjunct1])
qed


section \<open>Properties of the similarity graph and of the store\<close>

lemma mapM_Inr_length: "mapM f xs = Inr ys \<Longrightarrow> length ys = length xs"
  by (induction xs arbitrary: ys) (auto split: sum.splits)

lemma mapM_Inr_nth: "mapM f xs = Inr ys \<Longrightarrow> i < length xs \<Longrightarrow> f (xs ! i) = Inr (ys ! i)"
proof (induction xs arbitrary: ys i)
  case Nil
  then show ?case by simp
next
  case (Cons x xs)
  then show ?case by (cases i) (auto split: sum.splits)
qed

lemma mapM_all_Inr:
  "(\<And>x. x \<in> set xs \<Longrightarrow> \<exists>y. f x = Inr y) \<Longrightarrow> \<exists>ys. mapM f xs = Inr ys"
proof (induction xs)
  case Nil
  then show ?case by simp
next
  case (Cons x xs)
  then obtain y ys where "f x = Inr y" "mapM f xs = Inr ys" by (meson list.set_intros)
  then show ?case by simp
qed

lemma Weighted_Adjacency_edges:
  "Weighted_Adjacency m = Inr g \<Longrightarrow>
   (i, j, w) \<in> set (get_edge_dataframe g) \<longleftrightarrow>
     i < j \<and> j < shape0 m \<and> w = max (item m i j) (item m j i) \<and> w \<noteq> 0"
  by (auto simp: Weighted_Adjacency_def Let_def split: if_splits)

lemma Weighted_Adjacency_vcount:
  "Weighted_Adjacency m = Inr g \<Longrightarrow> vcount g = shape0 m \<and> shape0 m = shape1 m"
  by (auto simp: Weighted_Adjacency_def split: if_splits)

lemma heap_nth_second: "(h @ [x, y]) ! Suc (length h) = y"
  by (simp add: nth_append)

lemma heap_update_second: "(h @ [x, y])[Suc (length h) := z] = h @ [x, z]"
  by (simp add: list_update_append)

text \<open>What the three array statements leave in the store.\<close>

lemma build_graph_Inr:
  assumes "fst (build_graph h a idx) = Inr g"
  shows "\<exists>ks ls. mapM (np_index (shape0 (h ! a))) idx = Inr ks \<and>
           mapM (np_index (shape1 (h ! a))) idx = Inr ls \<and>
           snd (build_graph h a idx) =
             h @ [\<lparr>shape0 = length ks, shape1 = shape1 (h ! a),
                    item = (\<lambda>i j. item (h ! a) (ks ! i) j)\<rparr>,
                  \<lparr>shape0 = length ks, shape1 = length ls,
                    item = (\<lambda>i j. if item (h ! a) (ks ! i) (ls ! j) < 0.5 then 0
                                    else item (h ! a) (ks ! i) (ls ! j))\<rparr>] \<and>
           Weighted_Adjacency (snd (build_graph h a idx) ! Suc (length h)) = Inr g"
  using assms
  by (auto simp: build_graph_def index_rows_def index_cols_def alloc_def assign_below_def
        Let_def heap_nth_second heap_update_second split: sum.splits prod.splits cong: if_cong)

lemma build_graph_frame: "take (length h) (snd (build_graph h a idx)) = h"
  by (auto simp: build_graph_def index_rows_def index_cols_def alloc_def assign_below_def
        Let_def heap_update_second split: sum.splits prod.splits)

text \<open>The graph is built whenever the matrix is square and every index is within its range.\<close>

lemma build_graph_succeeds:
  assumes "shape0 (h ! a) = shape1 (h ! a)"
    and "\<And>k. k \<in> set idx \<Longrightarrow> - int (shape0 (h ! a)) \<le> k \<and> k < int (shape0 (h ! a))"
  shows "\<exists>g. fst (build_graph h a idx) = Inr g"
proof -
  have "\<exists>y. np_index (shape0 (h ! a)) k = Inr y" if "k \<in> set idx" for k
    using assms(2)[OF that] by (auto simp: np_index_def)
  then obtain ks where ks: "mapM (np_index (shape0 (h ! a))) idx = Inr ks"
    using mapM_all_Inr by blast
  with assms(1) have ls: "mapM (np_index (shape1 (h ! a))) idx = Inr ks" by simp
  show ?thesis
    by (simp add: build_graph_def index_rows_def index_cols_def alloc_def assign_below_def
        Weighted_Adjacency_def Let_def ks ls heap_nth_second heap_update_second)
qed

text \<open>The example: the graph of the three terms, computed from the similarity matrix.\<close>

lemma ex_build_graph: "fst (build_graph [sims3] 0 (map ind ex_group)) = Inr ex_graph"
  by (simp add: build_graph_def index_rows_def index_cols_def alloc_def assign_below_def
        np_index_def Weighted_Adjacency_def sims3_def ex_graph_def ex_group_def Let_def
        upt_rec[of _ "numeral _"] upt_rec[of _ "Suc _"])

text \<open>
  Claim C1. For two distinct positions \<open>i\<close>, \<open>j\<close> of the group, whose matrix indices denote
  the rows \<open>a\<close> and \<open>b\<close> of the (symmetric) similarity matrix, the graph has an edge between
  the vertices \<open>i\<close> and \<open>j\<close> exactly when the similarity of \<open>a\<close> and \<open>b\<close> is at least \<open>0.5\<close>,
  and the weight of such an edge is that similarity. The graph has one vertex per member.
\<close>

theorem similarity_graph_edge_iff:
  assumes "fst (build_graph h wsem_sim idx) = Inr g"
    and "i < length idx" and "j < length idx" and "i \<noteq> j"
    and "np_index (shape0 (h ! wsem_sim)) (idx ! i) = Inr a"
    and "np_index (shape0 (h ! wsem_sim)) (idx ! j) = Inr b"
    and "shape0 (h ! wsem_sim) = shape1 (h ! wsem_sim)"
    and "item (h ! wsem_sim) a b = item (h ! wsem_sim) b a"
  shows "vcount g = length idx \<and>
         ((\<exists>w. (i, j, w) \<in> set (get_edge_dataframe g) \<or> (j, i, w) \<in> set (get_edge_dataframe g))
            \<longleftrightarrow> item (h ! wsem_sim) a b \<ge> 0.5) \<and>
         (\<forall>w. (i, j, w) \<in> set (get_edge_dataframe g) \<or> (j, i, w) \<in> set (get_edge_dataframe g)
            \<longrightarrow> w = item (h ! wsem_sim) a b)"
proof -
  let ?m = "h ! wsem_sim"
  from build_graph_Inr[OF assms(1)] obtain ks ls where
    ks: "mapM (np_index (shape0 ?m)) idx = Inr ks" and
    ls: "mapM (np_index (shape1 ?m)) idx = Inr ls" and
    hp: "snd (build_graph h wsem_sim idx) =
           h @ [\<lparr>shape0 = length ks, shape1 = shape1 ?m,
                  item = (\<lambda>i j. item ?m (ks ! i) j)\<rparr>,
                \<lparr>shape0 = length ks, shape1 = length ls,
                  item = (\<lambda>i j. if item ?m (ks ! i) (ls ! j) < 0.5 then 0
                                  else item ?m (ks ! i) (ls ! j))\<rparr>]" and
    wa: "Weighted_Adjacency (snd (build_graph h wsem_sim idx) ! Suc (length h)) = Inr g"
    by blast
  let ?t = "\<lparr>shape0 = length ks, shape1 = length ls,
             item = (\<lambda>i j. if item ?m (ks ! i) (ls ! j) < 0.5 then 0
                             else item ?m (ks ! i) (ls ! j))\<rparr>"
  from wa hp have wa': "Weighted_Adjacency ?t = Inr g"
    by (simp add: heap_nth_second)
  from ks ls assms(7) have "ls = ks" by simp
  from mapM_Inr_length[OF ks] have len: "length ks = length idx" .
  from mapM_Inr_nth[OF ks assms(2)] assms(5) have ki: "ks ! i = a" by simp
  from mapM_Inr_nth[OF ks assms(3)] assms(6) have kj: "ks ! j = b" by simp
  let ?s = "item ?m a b"
  have tij: "item ?t i j = (if ?s < 0.5 then 0 else ?s)"
    and tji: "item ?t j i = (if ?s < 0.5 then 0 else ?s)"
    using ki kj \<open>ls = ks\<close> assms(8) by simp_all
  have E: "\<And>u v w. (u, v, w) \<in> set (get_edge_dataframe g) \<longleftrightarrow>
             u < v \<and> v < length idx \<and> w = max (item ?t u v) (item ?t v u) \<and> w \<noteq> 0"
    using Weighted_Adjacency_edges[OF wa'] len by simp
  have vc: "vcount g = length idx"
    using Weighted_Adjacency_vcount[OF wa'] len by simp
  have mx: "max (item ?t i j) (item ?t j i) = (if ?s < 0.5 then 0 else ?s)"
    "max (item ?t j i) (item ?t i j) = (if ?s < 0.5 then 0 else ?s)"
    unfolding tij tji by simp_all
  have both: "\<And>w. ((i, j, w) \<in> set (get_edge_dataframe g) \<or> (j, i, w) \<in> set (get_edge_dataframe g))
                \<longleftrightarrow> (w = (if ?s < 0.5 then 0 else ?s) \<and> w \<noteq> 0)"
    unfolding E mx using assms(2,3,4) by auto
  show ?thesis
    unfolding both using vc by auto
qed

theorem similarity_graph_edge_iff_witness:
  "fst (build_graph [sims3] 0 (map ind ex_group)) = Inr ex_graph \<and>
   (0 :: nat) < length (map ind ex_group) \<and> (1 :: nat) < length (map ind ex_group) \<and>
   (0 :: nat) \<noteq> 1 \<and>
   np_index (shape0 ([sims3] ! 0)) (map ind ex_group ! 0) = Inr 0 \<and>
   np_index (shape0 ([sims3] ! 0)) (map ind ex_group ! 1) = Inr 1 \<and>
   shape0 ([sims3] ! 0) = shape1 ([sims3] ! 0) \<and>
   item ([sims3] ! 0) 0 1 = item ([sims3] ! 0) 1 0 \<and>
   item ([sims3] ! 0) 0 1 = 0.8 \<and>
   (0, 1, 0.8) \<in> set (get_edge_dataframe ex_graph) \<and>
   vcount ex_graph = length (map ind ex_group) \<and>
   ((\<exists>w. (0, 1, w) \<in> set (get_edge_dataframe ex_graph) \<or>
         (1, 0, w) \<in> set (get_edge_dataframe ex_graph))
      \<longleftrightarrow> item ([sims3] ! 0) 0 1 \<ge> 0.5)"
proof -
  have i: "(0 :: nat) < length (map ind ex_group)"
    and j: "(1 :: nat) < length (map ind ex_group)"
    and ij: "(0 :: nat) \<noteq> 1"
    by (simp_all add: ex_group_def)
  have a0: "np_index (shape0 ([sims3] ! 0)) (map ind ex_group ! 0) = Inr 0"
    and a1: "np_index (shape0 ([sims3] ! 0)) (map ind ex_group ! 1) = Inr 1"
    and sq: "shape0 ([sims3] ! 0) = shape1 ([sims3] ! 0)"
    and sy: "item ([sims3] ! 0) 0 1 = item ([sims3] ! 0) 1 0"
    and v: "item ([sims3] ! 0) 0 1 = 0.8"
    by (simp_all add: np_index_def sims3_def ex_group_def)
  have e: "(0, 1, 0.8) \<in> set (get_edge_dataframe ex_graph)"
    by (simp add: ex_graph_def)
  note c = similarity_graph_edge_iff [OF ex_build_graph i j ij a0 a1 sq sy]
  show ?thesis
    by (intro conjI ex_build_graph i j ij a0 a1 sq sy v e
        c [THEN conjunct1] c [THEN conjunct2, THEN conjunct1])
qed

text \<open>
  Claim C9. Whatever the outcome of a run, the array at the address of the global similarity
  matrix is the same after the run as before, and so is every array that was in the store
  before the run: the two indexing steps put copies at new addresses, and the thresholding
  writes to the second copy.
\<close>

theorem similarity_matrix_unchanged:
  assumes "wsem_sim < length h"
  shows "snd (get_cytoscape_components lib G group' wsem_sim h) ! wsem_sim = h ! wsem_sim \<and>
         take (length h) (snd (get_cytoscape_components lib G group' wsem_sim h)) = h"
proof -
  have "snd (get_cytoscape_components lib G group' wsem_sim h)
        = snd (build_graph h wsem_sim (map ind group'))"
    by (simp add: get_cytoscape_components_def split: prod.splits sum.splits)
  then have t: "take (length h) (snd (get_cytoscape_components lib G group' wsem_sim h)) = h"
    by (simp add: build_graph_frame)
  with assms show ?thesis by (metis nth_take)
qed


section \<open>Properties of sorting, representatives and labels\<close>

lemma sorted_last_max: "sorted (map f ys) \<Longrightarrow> y \<in> set ys \<Longrightarrow> f y \<le> f (last ys)"
proof (induction ys)
  case Nil
  then show ?case by simp
next
  case (Cons a ys)
  then show ?case by (cases ys) auto
qed

lemma iloc0_Inr: "iloc0 rows = Inr r \<longleftrightarrow> rows \<noteq> [] \<and> r = hd rows"
  by (cases rows) (auto simp: iloc0_def)

lemma iloc0_Inl: "iloc0 rows = Inl e \<longleftrightarrow> rows = [] \<and> e = IndexError"
  by (cases rows) (auto simp: iloc0_def)


lemma mapM_iloc_Inr:
  "(\<And>i. i \<in> set is \<Longrightarrow> i < length rows) \<Longrightarrow> mapM (iloc rows) is = Inr (map (\<lambda>i. rows ! i) is)"
  by (induction "is") (auto simp: iloc_def)


text \<open>With a sort that keeps its promise, the first row has the largest key.\<close>

lemma sort_values_desc_max:
  assumes "argsort_ok argsort" and "rows \<noteq> []"
  shows "\<exists>ys. sort_values_desc argsort key rows = Inr ys \<and> ys \<noteq> [] \<and> hd ys \<in> set rows \<and>
           (\<forall>x \<in> set rows. key x \<le> key (hd ys))"
proof -
  let ?n = "length rows"
  let ?items = "map key rows"
  let ?non_nans = "rev ?items"
  let ?idx = "rev [0 ..< ?n]"
  let ?a = "argsort ?non_nans"
  from assms(1) have sa: "set ?a = {0 ..< ?n}" and so: "sorted (map (\<lambda>i. ?non_nans ! i) ?a)"
    by (simp_all add: argsort_ok_def)
  from sa assms(2) have ane: "?a \<noteq> []" by auto
  have in_range: "i < length ?idx" if "i \<in> set ?a" for i
    using that sa by simp
  have m1: "mapM (iloc ?idx) ?a = Inr (map (\<lambda>i. ?idx ! i) ?a)"
    by (rule mapM_iloc_Inr) (rule in_range)
  let ?indexer = "map (\<lambda>i. ?idx ! i) ?a"
  have ix: "i < ?n" if "i \<in> set (rev ?indexer)" for i
  proof -
    from that obtain j where j: "j \<in> set ?a" "i = ?idx ! j" by auto
    with sa have "j < ?n" by simp
    with j(2) show ?thesis by (simp add: rev_nth)
  qed
  have m2: "mapM (iloc rows) (rev ?indexer) = Inr (map (\<lambda>i. rows ! i) (rev ?indexer))"
    by (rule mapM_iloc_Inr) (rule ix)
  let ?ys = "map (\<lambda>i. rows ! i) (rev ?indexer)"
  have res: "sort_values_desc argsort key rows = Inr ?ys"
    by (simp add: sort_values_desc_def Let_def m1 m2)
  from ane have yne: "?ys \<noteq> []" by simp
  from ane have la: "last ?a \<in> set ?a" by simp
  with sa have ll: "last ?a < ?n" by simp
  from ane have hd: "hd ?ys = rows ! (?idx ! last ?a)"
    by (simp add: hd_map hd_rev last_map rev_map [symmetric])
  from ll have pos: "?idx ! last ?a = ?n - 1 - last ?a" and pl: "?n - 1 - last ?a < ?n"
    by (simp_all add: rev_nth)
  with hd have hdr: "hd ?ys \<in> set rows" by simp
  have khd: "key (hd ?ys) = ?non_nans ! last ?a"
    using ll hd pos by (simp add: rev_nth)
  have "key x \<le> key (hd ?ys)" if "x \<in> set rows" for x
  proof -
    from that obtain j where j: "j < ?n" "rows ! j = x" by (auto simp: in_set_conv_nth)
    let ?i = "?n - 1 - j"
    from j(1) have i: "?i < ?n" by simp
    with sa have "?i \<in> set ?a" by simp
    from sorted_last_max[OF so this] have "?non_nans ! ?i \<le> ?non_nans ! last ?a" .
    moreover from j i have "?non_nans ! ?i = key x" by (simp add: rev_nth)
    ultimately show ?thesis using khd by simp
  qed
  with res yne hdr show ?thesis by blast
qed

lemma argsort_ok_stable: "argsort_ok stable_argsort"
  by (simp add: argsort_ok_def stable_argsort_def)

lemma sorted_rev_neg:
  fixes g :: "nat \<Rightarrow> int"
  shows "sorted (map (\<lambda>i. - g i) s) \<Longrightarrow> sorted (map g (rev s))"
  by (simp add: rev_map sorted_wrt_rev sorted_map)

lemma argsort_ok_ties_reversed: "argsort_ok ties_reversed_argsort"
  by (simp add: argsort_ok_def ties_reversed_argsort_def sorted_rev_neg)





lemma zip_filter_fst_subset:
  "set (map fst (filter P (zip xs cs))) \<subseteq> set xs"
  by (auto dest: set_zip_leftD)

lemma isin_community_rows:
  assumes "distinct (map f xs)" and "length cs = length xs"
  shows "filter (\<lambda>r. f r \<in> set (map (f \<circ> fst) (filter (\<lambda>(r, c). c = k) (zip xs cs)))) xs
         = map fst (filter (\<lambda>(r, c). c = k) (zip xs cs))"
  using assms(2,1)
proof (induction cs xs rule: list_induct2)
  case Nil
  show ?case by simp
next
  case (Cons c cs x xs)
  let ?sel = "map fst (filter (\<lambda>(r, c). c = k) (zip xs cs))"
  from Cons.prems have d: "distinct (map f xs)" and nx: "f x \<notin> f ` set xs" by auto
  have sub: "set ?sel \<subseteq> set xs" by (rule zip_filter_fst_subset)
  then have nsel: "f x \<notin> f ` set ?sel" using nx by blast
  have IH: "filter (\<lambda>r. f r \<in> f ` set ?sel) xs = ?sel"
    using Cons.IH[OF d] by (simp add: image_comp)
  have rest: "filter (\<lambda>r. f r \<in> insert (f x) (f ` set ?sel)) xs = filter (\<lambda>r. f r \<in> f ` set ?sel) xs"
  proof (rule filter_cong [OF refl])
    fix r assume "r \<in> set xs"
    with nx have "f r \<noteq> f x" by (metis imageI)
    then show "(f r \<in> insert (f x) (f ` set ?sel)) = (f r \<in> f ` set ?sel)" by simp
  qed
  show ?case
  proof (cases "c = k")
    case True
    then show ?thesis using IH rest by (simp add: image_comp)
  next
    case False
    then show ?thesis using IH nsel by (simp add: image_comp)
  qed
qed

lemma comm_members_entry:
  assumes "(k, vals) \<in> set (comm_members group' community)"
  shows "vals = map (id' \<circ> fst) (filter (\<lambda>(r, c). c = k) (zip group' community)) \<and> 1 < length vals"
  using assms by (auto simp: comm_members_def Let_def)

lemma representative_Inr:
  "representative lib group' vals = Inr rid \<longleftrightarrow>
     (\<exists>ys. sort_values_desc (np_argsort lib) term_row.genes
             (filter (\<lambda>r. id' r \<in> set vals) group') = Inr ys \<and> ys \<noteq> [] \<and> rid = id' (hd ys))"
  by (auto simp: representative_def iloc0_Inr iloc0_Inl split: sum.splits)

text \<open>
  Claim C4, amended. For a community with more than one member (an entry of
  \<open>comm_members\<close>) of a group with distinct term ids, and a library sort that keeps its
  promise, the run picks exactly one representative; it is a member of the community, and
  no member has a higher gene count. Which of several members with the highest count is
  picked is left to the sort.
\<close>

theorem representative_highest_genes:
  assumes "argsort_ok (np_argsort lib)"
    and "distinct (map id' group')" and "length community = length group'"
    and "(k, vals) \<in> set (comm_members group' community)"
  shows "\<exists>r \<in> set (map fst (filter (\<lambda>(r, c). c = k) (zip group' community))).
           representative lib group' vals = Inr (id' r) \<and>
           (\<forall>x \<in> set (map fst (filter (\<lambda>(r, c). c = k) (zip group' community))).
              term_row.genes x \<le> term_row.genes r)"
proof -
  let ?members = "map fst (filter (\<lambda>(r, c). c = k) (zip group' community))"
  from comm_members_entry[OF assms(4)] have
    vals: "vals = map (id' \<circ> fst) (filter (\<lambda>(r, c). c = k) (zip group' community))"
    and len: "1 < length vals" by blast+
  have rows: "filter (\<lambda>r. id' r \<in> set vals) group' = ?members"
    unfolding vals by (rule isin_community_rows[OF assms(2,3)])
  from len vals have ne: "?members \<noteq> []" by auto
  from sort_values_desc_max[OF assms(1) ne, of term_row.genes] obtain ys where
    ys: "sort_values_desc (np_argsort lib) term_row.genes ?members = Inr ys" "ys \<noteq> []"
      "hd ys \<in> set ?members" "\<forall>x \<in> set ?members. term_row.genes x \<le> term_row.genes (hd ys)"
    by blast
  from ys(1,2) have "representative lib group' vals = Inr (id' (hd ys))"
    by (simp add: representative_Inr rows)
  with ys(3,4) show ?thesis by blast
qed

text \<open>The examples: a community with equal gene counts, under each of the two sorts.\<close>

lemma ex_comm_members: "comm_members ex_group [0, 0, 1] = [(0, [''A'', ''B''])]"
  by (simp add: comm_members_def ex_group_def Let_def)

lemma ex_representatives:
  "representatives ex_lib ex_group [(0, [''A'', ''B''])] = Inr [''A'']"
  by (simp add: representatives_def representative_def sort_values_desc_def iloc0_def iloc_def
      ex_group_def ex_lib_def stable_argsort_def Let_def upt_rec[of _ "numeral _"]
      upt_rec[of _ "Suc _"])

lemma tie_comm_members:
  "comm_members tie_group [0, 0, 0, 0] = [(0, [''T0'', ''T1'', ''T2'', ''T3''])]"
  by (simp add: comm_members_def tie_group_def Let_def)

lemma tie_representative:
  "representative tie_lib tie_group [''T0'', ''T1'', ''T2'', ''T3''] = Inr ''T3''"
  by (simp add: representative_def sort_values_desc_def iloc0_def iloc_def
      tie_group_def tie_lib_def ties_reversed_argsort_def Let_def upt_rec[of _ "numeral _"]
      upt_rec[of _ "Suc _"])

text \<open>
  Claim C4 says that among several members with the highest gene count the first in group
  order is picked. The code leaves the order of rows with equal counts to the library's
  sort, which is not stable: with a sort that lists equal values in decreasing position,
  the group with the gene counts \<open>1, 1, 2, 2\<close> gets the representative \<open>T3\<close>, although \<open>T2\<close>
  has the same count and comes first.
\<close>

theorem representative_tie_counterexample:
  "argsort_ok (np_argsort tie_lib) \<and> distinct (map id' tie_group) \<and>
   comm_members tie_group [0, 0, 0, 0] = [(0, [''T0'', ''T1'', ''T2'', ''T3''])] \<and>
   map id' tie_group = [''T0'', ''T1'', ''T2'', ''T3''] \<and>
   map term_row.genes tie_group = [1, 1, 2, 2] \<and>
   representative tie_lib tie_group [''T0'', ''T1'', ''T2'', ''T3''] = Inr ''T3''"
proof -
  have a: "argsort_ok (np_argsort tie_lib)"
    by (simp add: tie_lib_def argsort_ok_ties_reversed)
  have d: "distinct (map id' tie_group)"
    and i: "map id' tie_group = [''T0'', ''T1'', ''T2'', ''T3'']"
    and g: "map term_row.genes tie_group = [1, 1, 2, 2]"
    by (simp_all add: tie_group_def)
  show ?thesis
    by (intro conjI a d i g tie_comm_members tie_representative)
qed

theorem representative_highest_genes_witness:
  "argsort_ok (np_argsort ex_lib) \<and> distinct (map id' ex_group) \<and>
   length [0, 0, 1 :: nat] = length ex_group \<and>
   (0, [''A'', ''B'']) \<in> set (comm_members ex_group [0, 0, 1]) \<and>
   (\<exists>r \<in> set (map fst (filter (\<lambda>(r, c). c = 0) (zip ex_group [0, 0, 1 :: nat]))).
      representative ex_lib ex_group [''A'', ''B''] = Inr (id' r) \<and>
      (\<forall>x \<in> set (map fst (filter (\<lambda>(r, c). c = 0) (zip ex_group [0, 0, 1 :: nat]))).
         term_row.genes x \<le> term_row.genes r))"
proof -
  have a: "argsort_ok (np_argsort ex_lib)"
    by (simp add: ex_lib_def argsort_ok_stable)
  have d: "distinct (map id' ex_group)" and l: "length [0, 0, 1 :: nat] = length ex_group"
    by (simp_all add: ex_group_def)
  have m: "(0, [''A'', ''B'']) \<in> set (comm_members ex_group [0, 0, 1])"
    unfolding ex_comm_members by simp
  show ?thesis
    by (intro conjI a d l m representative_highest_genes [OF a d l m])
qed













text \<open>
  The examples: the common ancestors of \<open>A\<close> and \<open>B\<close> are \<open>P\<close> and \<open>R\<close>, and \<open>P\<close> is deeper;
  \<open>C\<close> and \<open>X\<close> have no common ancestor.
\<close>

lemma ex_annot_roots: "annot_roots ex_annot = [''R'']"
  by (simp add: annot_roots_def ex_annot_def)

lemma ex_comm_ancestors:
  "comm_ancestors ex_globals [(0, [''A'', ''B''])] = Inr [(0, {''P'', ''R''})]"
  by (auto simp add: comm_ancestors_def get_comm_ancestors_def ex_globals_def ex_annot_roots
      ex_get_ancestors)

lemma ex_rep_labels:
  "rep_labels ex_lib ex_globals [(0, [''A'', ''B''])] [(0, {''P'', ''R''})] = Inr [''parent'']"
  by (simp add: rep_labels_def getitem_def community_label_def lexsort_desc_def iloc0_def
      GO_term_of_def ex_globals_def ex_annot_def less_eq_prod_def less_prod_def)








section \<open>Properties of the payload\<close>










text \<open>The example: the whole run on the three terms.\<close>

lemma ex_group_color: "group_color ex_palette [0, 0, 1] = Inr [''#2E91E5'', ''#2E91E5'', ''#E15F99'']"
  by (simp add: group_color_def color_map_def colors_def np_unique_def getitem_def ex_palette_def)

lemma ex_color_map: "color_map ex_palette [0, 0, 1] = [(0, ''#2E91E5''), (1, ''#E15F99'')]"
  by (simp add: color_map_def colors_def np_unique_def ex_palette_def)

lemma ex_edge_ids:
  "edge_ids ex_group [(0, 1, 0.8), (1, 2, 0.6)] = Inr [(''A'', ''B'', 0.8), (''B'', ''C'', 0.6)]"
  by (simp add: edge_ids_def iloc_def ex_group_def)

lemma ex_make_edges:
  "mapM (make_edge ex_group [0, 0, 1]) [(''A'', ''B'', 0.8), (''B'', ''C'', 0.6)] =
     Inr [\<lparr>edge_source = ''A'', edge_target = ''B'', edge_weight = 4, edge_classes = 0\<rparr>,
          \<lparr>edge_source = ''B'', edge_target = ''C'', edge_weight = 3, edge_classes = 0\<rparr>]"
  by (simp add: make_edge_def iloc0_def ex_group_def)

lemma bind_err_Inr_eq: "bind_err (Inr x) f = f x"
  by (simp add: bind_err_def)

lemma ex_components: "components ex_lib ex_globals ex_group ex_graph = Inr ex_payload"
proof -
  have lay: "layout ex_lib ex_graph = [(0, 0), (1, 0), (2, 0)]"
    by (simp add: ex_lib_def ex_graph_def upt_rec[of _ "numeral _"] upt_rec[of _ "Suc _"])
  have com: "community_multilevel ex_lib ex_graph = [0, 0, 1]"
    by (simp add: ex_lib_def)
  have df: "get_edge_dataframe ex_graph = [(0, 1, 0.8), (1, 2, 0.6)]"
    by (simp add: ex_graph_def)
  have len: "length ex_group = 3" by (simp add: ex_group_def)
  have pal: "Dark24 ex_globals = ex_palette" by (simp add: ex_globals_def)
  have xy: "unpack_xy [(0, 0), (1, 0), (2, 0)] = Inr ([0, 1, 2], [0, 0, 0])"
    by (simp add: unpack_xy_def)
  have cols: "set_column 3 [0, 1, 2::real] = Inr [0, 1, 2]"
    "set_column 3 [0, 0, 0::real] = Inr [0, 0, 0]"
    "set_column 3 [0, 0, 1::nat] = Inr [0, 0, 1]"
    by (simp_all add: set_column_def)
  have nds: "map (make_node [''A''] (dict_zip [''A''] [''parent''])
                    (dict_zip (map fst [(0::nat, {''P'', ''R''})]) [''parent'']))
               (zip ex_group (zip [0, 1, 2] (zip [0, 0, 0] [0, 0, 1]))) = nodes ex_payload"
    by (simp add: make_node_def dict_zip_def ex_group_def ex_payload_def)
  have pl: "\<lparr>nodes = nodes ex_payload,
             edges = [\<lparr>edge_source = ''A'', edge_target = ''B'', edge_weight = 4, edge_classes = 0\<rparr>,
                      \<lparr>edge_source = ''B'', edge_target = ''C'', edge_weight = 3, edge_classes = 0\<rparr>],
             stylesheet = [(0, ''#2E91E5''), (1, ''#E15F99'')]\<rparr> = ex_payload"
    by (simp add: ex_payload_def)
  show ?thesis
    unfolding components_def lay com len pal df
    by (simp only: xy cols bind_err_Inr_eq prod.case ex_edge_ids ex_group_color
        ex_comm_members ex_representatives ex_comm_ancestors ex_rep_labels ex_make_edges
        ex_color_map nds pl)
qed

lemma ex_pipeline:
  "fst (get_cytoscape_components ex_lib ex_globals ex_group 0 [sims3]) = Inr ex_payload"
proof -
  obtain h' where "build_graph [sims3] 0 (map ind ex_group) = (Inr ex_graph, h')"
    using ex_build_graph by (cases "build_graph [sims3] 0 (map ind ex_group)") simp
  then show ?thesis
    by (simp only: get_cytoscape_components_def prod.case sum.case ex_components fst_conv)
qed


theorem similarity_matrix_unchanged_witness:
  "(0::nat) < length [sims3] \<and>
   snd (get_cytoscape_components ex_lib ex_globals ex_group 0 [sims3]) ! 0 = sims3 \<and>
   fst (get_cytoscape_components ex_lib ex_globals ex_group 0 [sims3]) = Inr ex_payload"
  using similarity_matrix_unchanged [of 0 "[sims3]" ex_lib ex_globals ex_group] ex_pipeline
  by simp


section \<open>Degenerate inputs: the empty group and many communities\<close>

text \<open>
  Claim C6 says that a run over an empty group ends with an empty payload. The code does
  not get that far: the graph of an empty group has no vertex, the layout has no point, and
  unpacking the empty coordinate array into \<open>x\<close> and \<open>y\<close> raises \<^verbatim>\<open>ValueError\<close>, whatever the
  library returns for the layout and the communities.
\<close>

theorem empty_group_fails:
  "fst (get_cytoscape_components lib G [] wsem_sim h) = Inl ValueError"
proof -
  have "fst (build_graph h wsem_sim []) = Inr \<lparr>vcount = 0, get_edge_dataframe = []\<rparr>"
    by (simp add: build_graph_def index_rows_def index_cols_def alloc_def assign_below_def
        Weighted_Adjacency_def Let_def heap_nth_second heap_update_second)
  then obtain h' where
    b: "build_graph h wsem_sim [] = (Inr \<lparr>vcount = 0, get_edge_dataframe = []\<rparr>, h')"
    by (cases "build_graph h wsem_sim []") simp
  have c: "components lib G [] graph = Inl ValueError" for graph
    by (cases "layout lib graph")
       (simp_all add: components_def bind_err_def unpack_xy_def set_column_def)
  show ?thesis
    by (simp add: get_cytoscape_components_def b c)
qed

text \<open>
  The colour list is the palette, followed by at most one more copy of its beginning: up to
  48 communities the \<open>i\<close>-th community gets the colour \<open>i mod 24\<close> of the palette; beyond 48
  the list is too short, a community id is missing from \<open>color_map\<close>, and the look-up of a
  node's colour raises \<^verbatim>\<open>KeyError\<close>.
\<close>

lemma mapM_Inl:
  assumes "x \<in> set xs" and "f x = Inl E" and "\<And>y e. f y = Inl e \<Longrightarrow> e = E"
  shows "mapM f xs = Inl E"
  using assms(1)
proof (induction xs)
  case Nil
  then show ?case by simp
next
  case (Cons a xs)
  show ?case
  proof (cases "f a")
    case (Inl e)
    with assms(3) show ?thesis by simp
  next
    case (Inr y)
    with Cons assms(2) have "x \<in> set xs" by auto
    from Cons.IH[OF this] Inr show ?thesis by simp
  qed
qed

lemma np_unique_props:
  "distinct (np_unique xs)" "set (np_unique xs) = set xs"
  by (simp_all add: np_unique_def)

lemma getitem_Inl: "getitem d k = Inl e \<Longrightarrow> e = KeyError"
  by (auto simp: getitem_def split: option.splits)

lemma np_unique_upt: "np_unique [0 ..< n] = [0 ..< n]"
  by (simp add: np_unique_def sort_key_id_if_sorted)

lemma colors_cycle:
  assumes "length pal = 24" and "length (np_unique membership) \<le> 48"
    and "i < length (np_unique membership)"
  shows "length (colors pal membership) = length (np_unique membership) \<and>
         colors pal membership ! i = pal ! (i mod 24)"
proof (cases "length (np_unique membership) \<le> 24")
  case True
  then have c: "colors pal membership = take (length (np_unique membership)) pal"
    by (simp add: colors_def Let_def)
  from True assms(3) have "i mod 24 = i" by simp
  with c True assms(1,3) show ?thesis by simp
next
  case False
  let ?n = "length (np_unique membership)"
  from False have c: "colors pal membership = pal @ take (?n - 24) pal"
    by (simp add: colors_def Let_def)
  from False assms(1,2) have len: "length (colors pal membership) = ?n"
    unfolding c by simp
  show ?thesis
  proof (cases "i < 24")
    case True
    then have "i mod 24 = i" by simp
    with True assms(1) len show ?thesis unfolding c by (simp add: nth_append)
  next
    case ge: False
    then have "24 \<le> i" by simp
    then have "i mod 24 = (i - 24) mod 24" by (rule le_mod_geq)
    moreover from assms(2,3) have "i - 24 < 24" by simp
    ultimately have m: "i mod 24 = i - 24" by simp
    from ge assms(3) have "i - 24 < ?n - 24" by simp
    then have "take (?n - 24) pal ! (i - 24) = pal ! (i - 24)" by simp
    with ge assms(1) m have "colors pal membership ! i = pal ! (i mod 24)"
      unfolding c by (simp add: nth_append)
    with len show ?thesis by simp
  qed
qed


text \<open>
  Claim C7 says that the colours cycle through the palette for every number of communities.
  With a palette of 24 colours and more than 48 distinct community ids, the look-up of the
  node colours fails with \<^verbatim>\<open>KeyError\<close>: the colour list has 48 entries, so the 49th
  community id is not a key of \<open>color_map\<close>.
\<close>

theorem colors_missing_beyond_two_cycles:
  assumes "length pal = 24" and "48 < length (np_unique membership)"
  shows "group_color pal membership = Inl KeyError"
proof -
  let ?u = "np_unique membership"
  from assms have col: "colors pal membership = pal @ pal"
    by (simp add: colors_def Let_def)
  with assms(1) have len: "length (colors pal membership) = 48" by simp
  have keys: "map fst (color_map pal membership) = take 48 ?u"
    unfolding color_map_def using len assms(2)
    by (metis map_fst_zip_take min.absorb4)
  let ?c = "?u ! 48"
  from assms(2) have "?c \<in> set ?u" by simp
  then have mem: "?c \<in> set membership" by (simp add: np_unique_props)
  have "?c \<notin> set (take 48 ?u)"
  proof
    assume "?c \<in> set (take 48 ?u)"
    then obtain i where i: "i < 48" "?u ! i = ?c"
      using assms(2) by (auto simp: in_set_conv_nth)
    with assms(2) np_unique_props(1)[of membership] show False
      by (auto simp: distinct_conv_nth)
  qed
  with keys have "map_of (color_map pal membership) ?c = None"
    by (metis map_of_eq_None_iff list.set_map)
  then have "getitem (color_map pal membership) ?c = Inl KeyError"
    by (simp add: getitem_def)
  from mapM_Inl[where f = "getitem (color_map pal membership)", OF mem this getitem_Inl]
  show ?thesis by (simp add: group_color_def)
qed

text \<open>49 terms, each its own community.\<close>

theorem colors_missing_beyond_two_cycles_witness:
  "length ex_palette = 24 \<and> 48 < length (np_unique [0 ..< 49]) \<and>
   group_color ex_palette [0 ..< 49] = Inl KeyError"
proof -
  have l: "length ex_palette = 24" by (simp add: ex_palette_def)
  have n: "48 < length (np_unique [0 ..< 49])" by (simp add: np_unique_upt)
  show ?thesis
    by (intro conjI l n colors_missing_beyond_two_cycles [OF l n])
qed

end
